theory Spec2Isabelle
  imports Main "HOL-Library.Word"
begin

section \<open>Data model\<close>

text \<open>
  The structs of \<^verbatim>\<open>bios.go\<close> and \<^verbatim>\<open>config.go\<close>, with the fields that the
  functions below read or write. The declaration of \<^verbatim>\<open>ProducerDef\<close> is not among the
  sources: its fields are the ones listed in the struct literal of
  \<^verbatim>\<open>ShuffleProducers\<close>. \<^verbatim>\<open>AccountName\<close>, \<^verbatim>\<open>OrganizationName\<close> and
  \<^verbatim>\<open>clonedFrom\<close> are strings (the code slices, concatenates and compares them); the
  fields that are only copied have the type parameter \<open>'v\<close>.
\<close>

record 'v ProducerDef =
  AccountName :: string
  Authority :: 'v
  InitialBlockSigningPublicKey :: 'v
  KeybaseUser :: 'v
  PGPPublicKey :: 'v
  OrganizationName :: string
  Timezone :: 'v
  URLs :: 'v
  clonedFrom :: string

record 'v LaunchData =
  Producers :: "'v ProducerDef list"

record ProducerConfig =
  MyAccount :: string
  SecretP2PAddress :: string

record DebugConfig =
  NoShuffle :: bool

record Config =
  Producer :: ProducerConfig
  Debug :: DebugConfig

text \<open>A \<^verbatim>\<open>time.Time\<close> is an instant, here an integer; a byte is an 8-bit word.\<close>

record ShuffleBlock =
  Time :: int
  MerkleRoot :: "8 word list"

text \<open>
  \<open>'priv\<close> is the type of a parsed private key (\<^verbatim>\<open>ecc.PrivateKey\<close>); the pointer
  \<^verbatim>\<open>EphemeralPrivateKey\<close> is \<open>None\<close> while it is nil.
\<close>

record ('v, 'priv) BIOS =
  LaunchData :: "'v LaunchData"
  Config :: Config
  ShuffleBlock :: ShuffleBlock
  ShuffledProducers :: "'v ProducerDef list"
  MyProducerDefs :: "'v ProducerDef list"
  EphemeralPrivateKey :: "'priv option"

text \<open>
  What \<^verbatim>\<open>RunABPStage1\<close> reads of the answer of \<^verbatim>\<open>GetAccount\<close>: the list of
  permissions, each with the threshold of its required authority (a \<^verbatim>\<open>uint32\<close>).
\<close>

record Permission =
  RequiredAuth_Threshold :: "32 word"

record AccountResp =
  Permissions :: "Permission list"

text \<open>The run-time panics of Go that the modelled code can raise.\<close>

datatype go_panic = DivideByZero | IndexOutOfRange

text \<open>
  The errors the modelled functions return, one constructor per \<^verbatim>\<open>return\<close> site:
  \<open>NoLocalProducerConfigFound\<close> is \<^verbatim>\<open>"no local producer config found ..."\<close> of
  \<^verbatim>\<open>MyProducerDef\<close>. \<^verbatim>\<open>ShuffleProducers\<close> returns \<^verbatim>\<open>nil\<close> only.
\<close>

datatype bios_error = NoLocalProducerConfigFound

text \<open>The three branches of \<^verbatim>\<open>Run\<close>, named after the function each one calls.\<close>

datatype stage1 = RunBootNodeStage1 | RunABPStage1 | WaitStage1End

section \<open>Batching of actions\<close>

text \<open>
  \<^verbatim>\<open>chunkifyActions\<close>: the \<^verbatim>\<open>for ... range actions\<close> loop with its two variables
  \<^verbatim>\<open>out\<close> and \<^verbatim>\<open>currentChunk\<close>, then the final flush.
\<close>

fun chunkLoop :: "'a list \<Rightarrow> int \<Rightarrow> 'a list list \<Rightarrow> 'a list \<Rightarrow> 'a list list \<times> 'a list" where
  "chunkLoop [] chunkSize out currentChunk = (out, currentChunk)"
| "chunkLoop (act # actions) chunkSize out currentChunk =
     (if int (length currentChunk) > chunkSize
      then chunkLoop actions chunkSize (out @ [currentChunk]) [act]
      else chunkLoop actions chunkSize out (currentChunk @ [act]))"

definition chunkifyActions :: "'a list \<Rightarrow> int \<Rightarrow> 'a list list" where
  "chunkifyActions actions chunkSize =
     (case chunkLoop actions chunkSize [] [] of
        (out, currentChunk) \<Rightarrow>
          if length currentChunk > 0 then out @ [currentChunk] else out)"

text \<open>
  A reference function for the proofs, not part of the program: cut a list into
  consecutive pieces of \<open>k\<close> elements, the last piece holding what remains.
\<close>

function chop :: "nat \<Rightarrow> 'a list \<Rightarrow> 'a list list" where
  "chop k xs = (if xs = [] \<or> k = 0 then [] else take k xs # chop k (drop k xs))"
  by pat_completeness auto
termination
  by (relation "measure (\<lambda>(k, xs). length xs)") auto

declare chop.simps [simp del]

section \<open>The schedule\<close>

text \<open>
  Go's \<^verbatim>\<open>%\<close> on \<^verbatim>\<open>int\<close> truncates towards zero: the remainder has the sign of the
  dividend. The division by zero is a panic, raised where \<^verbatim>\<open>%\<close> is used.
\<close>

definition go_rem :: "int \<Rightarrow> int \<Rightarrow> int" where
  "go_rem a b = sgn a * (\<bar>a\<bar> mod \<bar>b\<bar>)"

text \<open>\<^verbatim>\<open>%d\<close> of \<^verbatim>\<open>fmt.Sprintf\<close>: an integer in decimal.\<close>

function digits :: "nat \<Rightarrow> string" where
  "digits n = (if n < 10 then [char_of (48 + n)]
               else digits (n div 10) @ [char_of (48 + n mod 10)])"
  by pat_completeness auto
termination
  by (relation "measure id") auto

declare digits.simps [simp del]

definition itoa :: "int \<Rightarrow> string" where
  "itoa i = (if i < 0 then CHR ''-'' # digits (nat (- i)) else digits (nat i))"

text \<open>
  \<^verbatim>\<open>accountVariation\<close>. \<^verbatim>\<open>len\<close> counts bytes, as \<open>length\<close> does on a \<open>string\<close>.
  \<^verbatim>\<open>'a' + byte(variation-1)\<close> is computed on bytes, modulo 256, which is what
  \<open>char_of\<close> keeps of an integer.
\<close>

definition accountVariation :: "string \<Rightarrow> int \<Rightarrow> string" where
  "accountVariation name variation =
     (let name' = (if length name > 10 then take 10 name else name)
      in name' @ ''.'' @ [char_of (of_char CHR ''a'' + (variation - 1))])"

text \<open>The struct literal \<^verbatim>\<open>clonedProd\<close> of \<^verbatim>\<open>ShuffleProducers\<close>.\<close>

definition clonedProd :: "'v ProducerDef \<Rightarrow> int \<Rightarrow> 'v ProducerDef" where
  "clonedProd fromProd count =
     \<lparr> AccountName = accountVariation (AccountName fromProd) count,
       Authority = Authority fromProd,
       InitialBlockSigningPublicKey = InitialBlockSigningPublicKey fromProd,
       KeybaseUser = KeybaseUser fromProd,
       PGPPublicKey = PGPPublicKey fromProd,
       OrganizationName = OrganizationName fromProd @ '' - clone '' @ itoa count,
       Timezone = Timezone fromProd,
       URLs = URLs fromProd,
       clonedFrom = AccountName fromProd \<rparr>"

text \<open>
  The padding loop of \<^verbatim>\<open>ShuffleProducers\<close>, \<^verbatim>\<open>for { if len(...) == 22 { break } ... }\<close>,
  on the slice and the counter \<^verbatim>\<open>count\<close>. The loop has no other exit, so it is a
  partial function: \<open>None\<close> is a run that never leaves the loop, \<open>Some (Inl p)\<close> a
  panic, \<open>Some (Inr ps)\<close> the slice at the \<^verbatim>\<open>break\<close>.
\<close>

partial_function (option) padLoop ::
  "'v ProducerDef list \<Rightarrow> int \<Rightarrow> int \<Rightarrow> (go_panic + 'v ProducerDef list) option" where
  "padLoop producers cloneCount count =
     (if length producers = 22 then Some (Inr producers)
      else if cloneCount = 0 then Some (Inl DivideByZero)
      else
        let idx = 1 + go_rem count cloneCount in
        if idx < 0 \<or> int (length producers) \<le> idx then Some (Inl IndexOutOfRange)
        else
          let fromProd = producers ! nat idx;
              count' = count + 1
          in padLoop (producers @ [clonedProd fromProd count']) cloneCount count')"

declare padLoop.simps [code]

text \<open>
  \<^verbatim>\<open>ShuffleProducers\<close>, with \<^verbatim>\<open>time.Now()\<close> as the argument \<open>now\<close>. First the
  \<^verbatim>\<open>if / else\<close> on \<^verbatim>\<open>NoShuffle\<close>: both branches take the producers of the launch
  data in their order (the shuffle is not implemented).
\<close>

definition shuffleAssign ::
  "('v, 'priv) BIOS \<Rightarrow> 8 word list \<Rightarrow> int \<Rightarrow> int \<Rightarrow> ('v, 'priv) BIOS" where
  "shuffleAssign b btcMerkleRoot blockTime now =
     (if NoShuffle (Debug (Config b))
      then b\<lparr> ShuffledProducers := Producers (LaunchData b),
              ShuffleBlock := \<lparr> Time = now, MerkleRoot = replicate 16 0 \<rparr> \<rparr>
      else b\<lparr> ShuffledProducers := Producers (LaunchData b),
              ShuffleBlock := \<lparr> Time = blockTime, MerkleRoot = btcMerkleRoot \<rparr> \<rparr>)"

text \<open>
  Then the padding. The result is \<open>None\<close> when the loop does not end, a panic, or the
  returned \<^verbatim>\<open>error\<close> (\<open>None\<close> is \<^verbatim>\<open>nil\<close>) with the updated \<^verbatim>\<open>BIOS\<close>.
\<close>

definition ShuffleProducers ::
  "('v, 'priv) BIOS \<Rightarrow> 8 word list \<Rightarrow> int \<Rightarrow> int \<Rightarrow>
   (go_panic + bios_error option \<times> ('v, 'priv) BIOS) option" where
  "ShuffleProducers b btcMerkleRoot blockTime now =
     (let b1 = shuffleAssign b btcMerkleRoot blockTime now;
          numProds = int (length (ShuffledProducers b1))
      in if numProds < 22
         then (case padLoop (ShuffledProducers b1) (numProds - 1) 0 of
                 None \<Rightarrow> None
               | Some (Inl p) \<Rightarrow> Some (Inl p)
               | Some (Inr producers) \<Rightarrow> Some (Inr (None, b1\<lparr> ShuffledProducers := producers \<rparr>)))
         else Some (Inr (None, b1)))"

text \<open>
  The schedule in the words of the specification, for the comparison with the loop: the
  \<open>i\<close>-th appended clone (\<open>i\<close> from 1) is made from
  \<^verbatim>\<open>candidates[1 + (i-1) mod (L-1)]\<close>.
\<close>

definition cloneSource :: "nat \<Rightarrow> nat \<Rightarrow> nat" where
  "cloneSource L i = 1 + (i - 1) mod (L - 1)"

definition cloneSeq :: "'v ProducerDef list \<Rightarrow> nat \<Rightarrow> 'v ProducerDef" where
  "cloneSeq candidates i =
     clonedProd (candidates ! cloneSource (length candidates) i) (int i)"

definition alphabet :: string where
  "alphabet = ''abcdefghijklmnopqrstuvwxyz''"

section \<open>Roles\<close>

text \<open>\<^verbatim>\<open>IsBootNode\<close> reads slot 0, which panics on an empty schedule.\<close>

definition IsBootNode :: "('v, 'priv) BIOS \<Rightarrow> string \<Rightarrow> go_panic + bool" where
  "IsBootNode b account =
     (case ShuffledProducers b of
        [] \<Rightarrow> Inl IndexOutOfRange
      | p # _ \<Rightarrow> Inr (AccountName p = account))"

definition AmIBootNode :: "('v, 'priv) BIOS \<Rightarrow> go_panic + bool" where
  "AmIBootNode b = IsBootNode b (MyAccount (Producer (Config b)))"

text \<open>The loop of \<^verbatim>\<open>IsAppointedBlockProducer\<close>, from the index \<open>i\<close> on.\<close>

function isABPLoop :: "'v ProducerDef list \<Rightarrow> string \<Rightarrow> nat \<Rightarrow> bool" where
  "isABPLoop producers account i =
     (if i < 22 \<and> length producers > i
      then (if AccountName (producers ! i) = account then True
            else isABPLoop producers account (i + 1))
      else False)"
  by pat_completeness auto
termination
  by (relation "measure (\<lambda>(producers, account, i). 22 - i)") auto

declare isABPLoop.simps [simp del]

definition IsAppointedBlockProducer :: "('v, 'priv) BIOS \<Rightarrow> string \<Rightarrow> bool" where
  "IsAppointedBlockProducer b account = isABPLoop (ShuffledProducers b) account 1"

definition AmIAppointedBlockProducer :: "('v, 'priv) BIOS \<Rightarrow> bool" where
  "AmIAppointedBlockProducer b = IsAppointedBlockProducer b (MyAccount (Producer (Config b)))"

text \<open>
  The \<^verbatim>\<open>if / else if / else\<close> of \<^verbatim>\<open>Run\<close> that picks the stage-1 function: the branch
  taken, or the panic of \<^verbatim>\<open>AmIBootNode\<close>.
\<close>

definition Run_branch :: "('v, 'priv) BIOS \<Rightarrow> go_panic + stage1" where
  "Run_branch b =
     (case AmIBootNode b of
        Inl p \<Rightarrow> Inl p
      | Inr True \<Rightarrow> Inr RunBootNodeStage1
      | Inr False \<Rightarrow>
          if AmIAppointedBlockProducer b then Inr RunABPStage1 else Inr WaitStage1End)"

text \<open>\<^verbatim>\<open>MyProducerDef\<close>: the first producer of the launch data with the local account.\<close>

fun MyProducerDef_loop :: "'v ProducerDef list \<Rightarrow> string \<Rightarrow> bios_error + 'v ProducerDef" where
  "MyProducerDef_loop [] myAccount = Inl NoLocalProducerConfigFound"
| "MyProducerDef_loop (producer # producers) myAccount =
     (if myAccount = AccountName producer then Inr producer
      else MyProducerDef_loop producers myAccount)"

definition MyProducerDef :: "('v, 'priv) BIOS \<Rightarrow> bios_error + 'v ProducerDef" where
  "MyProducerDef b =
     MyProducerDef_loop (Producers (LaunchData b)) (MyAccount (Producer (Config b)))"

text \<open>\<^verbatim>\<open>setMyProducerDefs\<close>: the loop appends to \<^verbatim>\<open>out\<close>, left to right.\<close>

definition setMyProducerDefs :: "('v, 'priv) BIOS \<Rightarrow> bios_error + ('v, 'priv) BIOS" where
  "setMyProducerDefs b =
     (case MyProducerDef b of
        Inl err \<Rightarrow> Inl err
      | Inr myProd \<Rightarrow>
          Inr (b\<lparr> MyProducerDefs :=
                 foldl (\<lambda>out producer. if clonedFrom producer = AccountName myProd
                                        then out @ [producer] else out)
                       [myProd] (ShuffledProducers b) \<rparr>))"

section \<open>The verification loop of an appointed block producer\<close>

text \<open>
  The \<^verbatim>\<open>for { ... }\<close> of \<^verbatim>\<open>RunABPStage1\<close>. The chain is the argument \<open>getAccount\<close>:
  \<open>getAccount n\<close> is the answer to the call of \<^verbatim>\<open>GetAccount\<close> made after \<open>n\<close> earlier
  calls. Every iteration first sleeps one second, so the state \<open>n\<close> is also the number
  of seconds slept so far; \<open>printed\<close> is the text written to the terminal. The result
  is \<open>None\<close> when the loop never reaches its \<^verbatim>\<open>break\<close>, else the seconds slept and
  the text printed at the \<^verbatim>\<open>break\<close>.
\<close>

partial_function (option) abpVerifyLoop ::
  "(nat \<Rightarrow> string + AccountResp) \<Rightarrow> nat \<Rightarrow> string \<Rightarrow> (nat \<times> string) option" where
  "abpVerifyLoop getAccount n printed =
     (case getAccount n of
        Inl err \<Rightarrow> abpVerifyLoop getAccount (n + 1) (printed @ ''e'')
      | Inr acct \<Rightarrow>
          if length (Permissions acct) \<noteq> 2
             \<or> RequiredAuth_Threshold (Permissions acct ! 0) \<noteq> 0
             \<or> RequiredAuth_Threshold (Permissions acct ! 1) \<noteq> 0
          then abpVerifyLoop getAccount (n + 1) (printed @ ''.'')
          else Some (n + 1, printed @ '' OKAY'' @ [CHR 0x0A]))"

declare abpVerifyLoop.simps [code]

text \<open>
  The exit condition in the words of the specification: the read succeeded and the
  permission set has exactly two entries, each with threshold 0.
\<close>

definition reportsDisabled :: "string + AccountResp \<Rightarrow> bool" where
  "reportsDisabled r =
     (case r of
        Inl err \<Rightarrow> False
      | Inr acct \<Rightarrow>
          length (Permissions acct) = 2 \<and>
          list_all (\<lambda>p. RequiredAuth_Threshold p = 0) (Permissions acct))"

section \<open>Example inputs\<close>

text \<open>Concrete producers and a concrete \<^verbatim>\<open>BIOS\<close>, on which the theorems are run.\<close>

definition exProducer :: "string \<Rightarrow> string \<Rightarrow> nat ProducerDef" where
  "exProducer account org =
     \<lparr> AccountName = account, Authority = 0, InitialBlockSigningPublicKey = 1,
       KeybaseUser = 2, PGPPublicKey = 3, OrganizationName = org, Timezone = 4,
       URLs = 5, clonedFrom = [] \<rparr>"

definition exBIOS :: "nat ProducerDef list \<Rightarrow> string \<Rightarrow> (nat, nat) BIOS" where
  "exBIOS candidates account =
     \<lparr> LaunchData = \<lparr> Producers = candidates \<rparr>,
       Config = \<lparr> Producer = \<lparr> MyAccount = account, SecretP2PAddress = [] \<rparr>,
                  Debug = \<lparr> NoShuffle = True \<rparr> \<rparr>,
       ShuffleBlock = \<lparr> Time = 0, MerkleRoot = [] \<rparr>,
       ShuffledProducers = [], MyProducerDefs = [], EphemeralPrivateKey = None \<rparr>"

definition fiveCandidates :: "nat ProducerDef list" where
  "fiveCandidates =
     [exProducer ''eosboot'' ''Boot'', exProducer ''alpha'' ''Alpha'',
      exProducer ''bravo'' ''Bravo'', exProducer ''charlie'' ''Charlie'',
      exProducer ''deltaproducer'' ''Delta'']"

text \<open>The schedule of a result of \<^verbatim>\<open>ShuffleProducers\<close> (empty when there is none).\<close>

definition scheduleOf ::
  "(go_panic + bios_error option \<times> ('v, 'priv) BIOS) option \<Rightarrow> 'v ProducerDef list" where
  "scheduleOf r = (case r of Some (Inr (err, b')) \<Rightarrow> ShuffledProducers b' | _ \<Rightarrow> [])"

text \<open>A \<^verbatim>\<open>BIOS\<close> with the schedule that \<^verbatim>\<open>ShuffleProducers\<close> computes for it.\<close>

definition shuffled :: "('v, 'priv) BIOS \<Rightarrow> ('v, 'priv) BIOS" where
  "shuffled b = b\<lparr> ShuffledProducers := scheduleOf (ShuffleProducers b [] 0 0) \<rparr>"

text \<open>
  Two candidates, of which the first has the account name that the padding gives to the
  first clone of the second; the local account is that name.
\<close>

definition clashBIOS :: "(nat, nat) BIOS" where
  "clashBIOS =
     shuffled (exBIOS [exProducer ''alpha.a'' ''Boot'', exProducer ''alpha'' ''Alpha'']
                 ''alpha.a'')"

text \<open>
  A chain that answers three reads with an error, two with the permissions of an
  account that is still enabled, and every later one with two permissions of
  threshold 0.
\<close>

definition exChain :: "nat \<Rightarrow> string + AccountResp" where
  "exChain i =
     (if i < 3 then Inl ''connection refused''
      else if i < 5
      then Inr \<lparr> Permissions = [\<lparr> RequiredAuth_Threshold = 1 \<rparr>,
                                 \<lparr> RequiredAuth_Threshold = 0 \<rparr>] \<rparr>
      else Inr \<lparr> Permissions = [\<lparr> RequiredAuth_Threshold = 0 \<rparr>,
                                 \<lparr> RequiredAuth_Threshold = 0 \<rparr>] \<rparr>)"

section \<open>Properties of the batching\<close>

lemma chop_Nil: "chop k [] = []"
  by (subst chop.simps) simp

lemma chop_short: "xs \<noteq> [] \<Longrightarrow> length xs \<le> k \<Longrightarrow> chop k xs = [xs]"
proof -
  assume a: "xs \<noteq> []" "length xs \<le> k"
  then have "0 < k" by (cases xs) auto
  with a show ?thesis by (subst chop.simps, subst chop.simps) simp
qed

lemma chop_full: "length c = k \<Longrightarrow> k > 0 \<Longrightarrow> chop k (c @ xs) = c # chop k xs"
  by (subst chop.simps) auto

text \<open>
  The loop invariant: the current chunk never holds more than \<open>chunkSize + 1\<close> actions,
  and what the loop and the final flush produce is the cut of all actions seen into
  pieces of \<open>chunkSize + 1\<close>.
\<close>

lemma chunkLoop_chop:
  "0 \<le> n \<Longrightarrow> length cur \<le> nat n + 1 \<Longrightarrow>
   (case chunkLoop xs n out cur of
      (out', cur') \<Rightarrow> out' @ (if length cur' > 0 then [cur'] else []))
     = out @ chop (nat n + 1) (cur @ xs)"
proof (induction xs arbitrary: out cur)
  case Nil
  then show ?case by (cases "cur = []") (simp_all add: chop_Nil chop_short)
next
  case (Cons a xs)
  show ?case
  proof (cases "int (length cur) > n")
    case True
    with Cons.prems have len: "length cur = nat n + 1" by linarith
    have "length [a] \<le> nat n + 1" by simp
    from Cons.IH[OF Cons.prems(1) this, of "out @ [cur]"] True len
    show ?thesis by (simp add: chop_full)
  next
    case False
    with Cons.prems have "length (cur @ [a]) \<le> nat n + 1" by simp
    from Cons.IH[OF Cons.prems(1) this, of out] False
    show ?thesis by simp
  qed
qed

lemma chunkifyActions_chop: "0 \<le> n \<Longrightarrow> chunkifyActions xs n = chop (nat n + 1) xs"
  using chunkLoop_chop[of n "[]" xs "[]"]
  by (simp add: chunkifyActions_def split: prod.splits if_splits)

lemma concat_chop: "0 < k \<Longrightarrow> concat (chop k xs) = xs"
proof (induction k xs rule: chop.induct)
  case (1 k xs)
  then show ?case by (subst chop.simps) auto
qed

lemma chop_lengths:
  "0 < k \<Longrightarrow> map length (chop k xs) =
     replicate (length xs div k) k @ (if length xs mod k = 0 then [] else [length xs mod k])"
proof (induction k xs rule: chop.induct)
  case (1 k xs)
  show ?case
  proof (cases "xs = []")
    case True
    then show ?thesis by (simp add: chop_Nil)
  next
    case False
    show ?thesis
    proof (cases "length xs < k")
      case True
      with False show ?thesis by (simp add: chop_short)
    next
      case ge: False
      then have "length xs div k = Suc ((length xs - k) div k)"
        using 1(2) by (simp add: le_div_geq)
      moreover have "length xs mod k = (length xs - k) mod k"
        using ge by (simp add: le_mod_geq)
      moreover have "min (length xs) k = k"
        using ge by simp
      ultimately show ?thesis
        using 1 False by (subst chop.simps) simp
    qed
  qed
qed

lemma butlast_lengths:
  assumes "map length cs = replicate q k @ (if r = 0 then [] else [r])"
  shows "\<forall>c\<in>set (butlast cs). length c = k"
proof -
  have "map length (butlast cs) = butlast (replicate q k @ (if r = 0 then [] else [r]))"
    using assms by (simp add: map_butlast)
  then have "set (map length (butlast cs)) \<subseteq> {k}"
    by (cases "r = 0") (auto simp: butlast_append dest: in_set_butlastD)
  then show ?thesis by auto
qed

lemma last_lengths:
  assumes "map length cs = replicate (n div k) k @ (if n mod k = 0 then [] else [n mod k])"
    and "cs \<noteq> []" and "0 < k"
  shows "1 \<le> length (last cs) \<and> length (last cs) \<le> k"
proof -
  have "length (last cs) = last (map length cs)"
    using assms(2) by (simp add: last_map)
  also have "\<dots> = (if n mod k = 0 then k else n mod k)"
  proof (cases "n mod k = 0")
    case True
    have "n div k \<noteq> 0"
    proof
      assume "n div k = 0"
      with True assms(1) have "map length cs = []" by simp
      with assms(2) show False by simp
    qed
    with True assms(1) show ?thesis by simp
  next
    case False
    with assms(1) show ?thesis by simp
  qed
  finally show ?thesis
    using assms(3) by (auto simp: Suc_leI intro: less_imp_le)
qed

text \<open>
  Claim C1. With the limit 400, \<^verbatim>\<open>chunkifyActions\<close> cuts every list of actions into
  batches whose concatenation, in order, is the list. A batch is closed only when it
  already holds 401 actions: every batch but the last holds exactly 401, the last one
  between 1 and 401. No action gives no batch; 1 to 401 actions give one batch; 402
  give batches of 401 and 1; 800 give 401 and 399; 801 give 401 and 400.
\<close>

theorem chunkifyActions_limit_400:
  "concat (chunkifyActions xs 400) = xs \<and>
   (\<forall>c\<in>set (butlast (chunkifyActions xs 400)). length c = 401) \<and>
   (chunkifyActions xs 400 \<noteq> [] \<longrightarrow>
      1 \<le> length (last (chunkifyActions xs 400)) \<and>
      length (last (chunkifyActions xs 400)) \<le> 401) \<and>
   (length xs = 0 \<longrightarrow> chunkifyActions xs 400 = []) \<and>
   (1 \<le> length xs \<and> length xs \<le> 401 \<longrightarrow> chunkifyActions xs 400 = [xs]) \<and>
   (length xs = 402 \<longrightarrow> map length (chunkifyActions xs 400) = [401, 1]) \<and>
   (length xs = 800 \<longrightarrow> map length (chunkifyActions xs 400) = [401, 399]) \<and>
   (length xs = 801 \<longrightarrow> map length (chunkifyActions xs 400) = [401, 400])"
proof -
  have eq: "chunkifyActions xs 400 = chop 401 xs"
    using chunkifyActions_chop [of 400 xs] by simp
  have lens: "map length (chop 401 xs) =
      replicate (length xs div 401) 401 @
      (if length xs mod 401 = 0 then [] else [length xs mod 401])"
    by (rule chop_lengths) simp
  have c1: "concat (chop 401 xs) = xs"
    by (rule concat_chop) simp
  have c2: "\<forall>c\<in>set (butlast (chop 401 xs)). length c = 401"
    using lens by (rule butlast_lengths)
  have c3: "chop 401 xs \<noteq> [] \<longrightarrow>
      1 \<le> length (last (chop 401 xs)) \<and> length (last (chop 401 xs)) \<le> 401"
    using last_lengths [OF lens] by simp
  have c4: "length xs = 0 \<longrightarrow> chop 401 xs = []"
    by (simp add: chop_Nil)
  have c5: "1 \<le> length xs \<and> length xs \<le> 401 \<longrightarrow> chop 401 xs = [xs]"
    by (auto intro: chop_short)
  have c6: "length xs = 402 \<longrightarrow> map length (chop 401 xs) = [401, 1]"
    using lens by simp
  have c7: "length xs = 800 \<longrightarrow> map length (chop 401 xs) = [401, 399]"
    using lens by simp
  have c8: "length xs = 801 \<longrightarrow> map length (chop 401 xs) = [401, 400]"
    using lens by simp
  show ?thesis
    unfolding eq using c1 c2 c3 c4 c5 c6 c7 c8 by blast
qed

text \<open>The seven sizes of the specification: 0, 1, 400, 401, 402, 800 and 801 actions.\<close>

theorem chunkifyActions_limit_400_witness:
  "chunkifyActions ([] :: nat list) 400 = [] \<and>
   chunkifyActions [7 :: nat] 400 = [[7]] \<and>
   chunkifyActions (replicate 400 (0::nat)) 400 = [replicate 400 0] \<and>
   chunkifyActions (replicate 401 (0::nat)) 400 = [replicate 401 0] \<and>
   map length (chunkifyActions (replicate 402 (0::nat)) 400) = [401, 1] \<and>
   map length (chunkifyActions (replicate 800 (0::nat)) 400) = [401, 399] \<and>
   map length (chunkifyActions (replicate 801 (0::nat)) 400) = [401, 400] \<and>
   concat (chunkifyActions (replicate 801 (0::nat)) 400) = replicate 801 0"
  using chunkifyActions_limit_400 [of "[] :: nat list"]
    chunkifyActions_limit_400 [of "[7 :: nat]"]
    chunkifyActions_limit_400 [of "replicate 400 (0::nat)"]
    chunkifyActions_limit_400 [of "replicate 401 (0::nat)"]
    chunkifyActions_limit_400 [of "replicate 402 (0::nat)"]
    chunkifyActions_limit_400 [of "replicate 800 (0::nat)"]
    chunkifyActions_limit_400 [of "replicate 801 (0::nat)"]
  by simp

section \<open>Properties of the schedule\<close>

lemma go_rem_nonneg: "0 \<le> a \<Longrightarrow> 0 < b \<Longrightarrow> go_rem a b = a mod b"
  by (cases "a = 0") (simp_all add: go_rem_def)

lemma cloneSource_range: "2 \<le> L \<Longrightarrow> 0 < cloneSource L i \<and> cloneSource L i < L"
proof -
  assume "2 \<le> L"
  then have "(i - 1) mod (L - 1) < L - 1" by simp
  then show ?thesis by (simp add: cloneSource_def)
qed

lemma padLoop_closed:
  assumes "2 \<le> length cands" "length cands + k \<le> 22"
    and "length ps = length cands + k" "take (length cands) ps = cands"
  shows "padLoop ps (int (length cands) - 1) (int k) =
     Some (Inr (ps @ map (cloneSeq cands) [k + 1 ..< 23 - length cands]))"
  using assms
proof (induction "22 - length cands - k" arbitrary: k ps)
  case 0
  then have "length ps = 22" by simp
  moreover from 0 have "23 - length cands \<le> k + 1" by arith
  then have "[k + 1 ..< 23 - length cands] = []" by simp
  ultimately show ?case by (subst padLoop.simps) simp
next
  case (Suc n)
  let ?L = "length cands"
  from Suc have lt: "?L + k < 22" by simp
  with Suc.prems have ne: "length ps \<noteq> 22" by simp
  from Suc.prems have cc: "int ?L - 1 \<noteq> 0" "0 < int ?L - 1" by simp_all
  have rem: "go_rem (int k) (int ?L - 1) = int (k mod (?L - 1))"
    using cc by (simp add: go_rem_nonneg zmod_int)
  have "k mod (?L - 1) < ?L - 1" using Suc.prems by simp
  then have idx: "1 + k mod (?L - 1) < ?L" by simp
  then have idx': "1 + k mod (?L - 1) < length ps" using Suc.prems by simp
  have src: "ps ! (1 + k mod (?L - 1)) = cands ! (1 + k mod (?L - 1))"
    using idx Suc.prems(4) by (metis nth_take)
  let ?c = "clonedProd (cands ! (1 + k mod (?L - 1))) (int k + 1)"
  have step: "padLoop ps (int ?L - 1) (int k) = padLoop (ps @ [?c]) (int ?L - 1) (int k + 1)"
    apply (subst padLoop.simps)
    using ne cc idx' src by (simp add: rem Let_def nat_add_distrib)
  have e: "int k + 1 = int (Suc k)" by simp
  have "padLoop (ps @ [?c]) (int ?L - 1) (int (Suc k)) =
      Some (Inr ((ps @ [?c]) @ map (cloneSeq cands) [Suc k + 1 ..< 23 - ?L]))"
  proof (rule Suc.hyps(1))
    show "n = 22 - ?L - Suc k" using Suc.hyps(2) by simp
    show "2 \<le> ?L" by fact
    show "?L + Suc k \<le> 22" using lt by simp
    show "length (ps @ [?c]) = ?L + Suc k" using Suc.prems by simp
    show "take ?L (ps @ [?c]) = cands" using Suc.prems by simp
  qed
  moreover have "[k + 1 ..< 23 - ?L] = (k + 1) # [Suc k + 1 ..< 23 - ?L]"
  proof -
    from lt have "k + 1 < 23 - ?L" by arith
    then show ?thesis by (simp add: upt_conv_Cons)
  qed
  moreover have "cloneSeq cands (k + 1) = ?c"
    by (simp add: cloneSeq_def cloneSource_def add.commute)
  ultimately show ?case unfolding step e by simp
qed

lemma shuffleAssign_producers [simp]:
  "ShuffledProducers (shuffleAssign b r t now) = Producers (LaunchData b)"
  "LaunchData (shuffleAssign b r t now) = LaunchData b"
  "Config (shuffleAssign b r t now) = Config b"
  "MyProducerDefs (shuffleAssign b r t now) = MyProducerDefs b"
  by (simp_all add: shuffleAssign_def)

lemma ShuffleProducers_padded:
  assumes "2 \<le> length (Producers (LaunchData b))" "length (Producers (LaunchData b)) < 22"
  shows "ShuffleProducers b r t now =
     Some (Inr (None, (shuffleAssign b r t now)
       \<lparr> ShuffledProducers := Producers (LaunchData b) @
            map (cloneSeq (Producers (LaunchData b)))
                [1 ..< 23 - length (Producers (LaunchData b))] \<rparr>))"
proof -
  let ?cands = "Producers (LaunchData b)"
  have "padLoop ?cands (int (length ?cands) - 1) (int 0) =
      Some (Inr (?cands @ map (cloneSeq ?cands) [0 + 1 ..< 23 - length ?cands]))"
    using assms by (intro padLoop_closed) simp_all
  then show ?thesis
    using assms by (simp add: ShuffleProducers_def Let_def)
qed

lemma ShuffleProducers_full:
  assumes "22 \<le> length (Producers (LaunchData b))"
  shows "ShuffleProducers b r t now = Some (Inr (None, shuffleAssign b r t now))"
  using assms by (simp add: ShuffleProducers_def Let_def)

lemma ShuffleProducers_one:
  assumes "length (Producers (LaunchData b)) = 1"
  shows "ShuffleProducers b r t now = Some (Inl DivideByZero)"
proof -
  have "padLoop (Producers (LaunchData b)) 0 0 = Some (Inl DivideByZero)"
    using assms by (subst padLoop.simps) simp
  then show ?thesis
    using assms by (simp add: ShuffleProducers_def Let_def)
qed

lemma ShuffleProducers_none:
  assumes "length (Producers (LaunchData b)) = 0"
  shows "ShuffleProducers b r t now = Some (Inl IndexOutOfRange)"
proof -
  have "padLoop (Producers (LaunchData b)) (- 1) 0 = Some (Inl IndexOutOfRange)"
    using assms by (subst padLoop.simps) (simp add: go_rem_def)
  then show ?thesis
    using assms by (simp add: ShuffleProducers_def Let_def)
qed

lemma letter_char:
  "i < 26 \<Longrightarrow> char_of (of_char CHR ''a'' + (int (Suc i) - 1)) = alphabet ! i"
proof -
  have "\<forall>i\<in>set [0..<26]. char_of (of_char CHR ''a'' + (int (Suc i) - 1)) = alphabet ! i"
    by code_simp
  moreover assume "i < 26"
  ultimately show ?thesis by simp
qed

lemma distinct_alphabet: "distinct alphabet" "length alphabet = 26"
  by (simp_all add: alphabet_def)

lemma nth_padded:
  assumes "1 \<le> i" "i \<le> 22 - length cands"
  shows "(cands @ map (cloneSeq cands) [1 ..< 23 - length cands]) ! (length cands + i - 1)
           = cloneSeq cands i"
proof -
  from assms have e: "length cands + i - 1 = length cands + (i - 1)" by simp
  from assms have lt: "1 + (i - 1) < 23 - length cands" by arith
  then have "[1 ..< 23 - length cands] ! (i - 1) = 1 + (i - 1)" by (rule nth_upt)
  with assms have n: "[1 ..< 23 - length cands] ! (i - 1) = i" by simp
  from lt have "i - 1 < length [1 ..< 23 - length cands]" by simp
  then have "map (cloneSeq cands) [1 ..< 23 - length cands] ! (i - 1) = cloneSeq cands i"
    using n by (simp only: nth_map)
  then show ?thesis unfolding e by (simp only: nth_append_length_plus)
qed

text \<open>
  Claim C2. With \<open>L\<close> candidates, \<open>2 \<le> L < 22\<close>, \<^verbatim>\<open>ShuffleProducers\<close> returns a
  schedule of exactly 22 entries. Its first \<open>L\<close> entries are the candidates, unchanged
  (slot 0 among them). For every \<open>i \<ge> 1\<close>, the \<open>i\<close>-th appended entry is the clone
  that the struct literal builds from \<^verbatim>\<open>candidates[1 + (i-1) mod (L-1)]\<close>, with
  \<^verbatim>\<open>clonedFrom\<close> set to the account of that candidate; the index is never 0. With
  \<open>L \<ge> 22\<close> the schedule is the candidate list.
\<close>

theorem ShuffleProducers_schedule:
  assumes "cands = Producers (LaunchData b)" and "L = length cands"
  shows "(2 \<le> L \<and> L < 22 \<longrightarrow>
           (\<exists>b'. ShuffleProducers b btcMerkleRoot blockTime now = Some (Inr (None, b')) \<and>
              length (ShuffledProducers b') = 22 \<and>
              take L (ShuffledProducers b') = cands \<and>
              ShuffledProducers b' ! 0 = cands ! 0 \<and>
              (\<forall>i. 1 \<le> i \<and> i \<le> 22 - L \<longrightarrow>
                 0 < cloneSource L i \<and> cloneSource L i < L \<and>
                 cloneSource L i = 1 + (i - 1) mod (L - 1) \<and>
                 ShuffledProducers b' ! (L + i - 1) = clonedProd (cands ! cloneSource L i) (int i) \<and>
                 clonedFrom (ShuffledProducers b' ! (L + i - 1))
                   = AccountName (cands ! cloneSource L i)))) \<and>
         (22 \<le> L \<longrightarrow>
           (\<exists>b'. ShuffleProducers b btcMerkleRoot blockTime now = Some (Inr (None, b')) \<and>
              ShuffledProducers b' = cands))"
proof (intro conjI impI)
  assume L: "2 \<le> L \<and> L < 22"
  let ?S = "cands @ map (cloneSeq cands) [1 ..< 23 - L]"
  let ?b' = "(shuffleAssign b btcMerkleRoot blockTime now) \<lparr> ShuffledProducers := ?S \<rparr>"
  have run: "ShuffleProducers b btcMerkleRoot blockTime now = Some (Inr (None, ?b'))"
    using L assms ShuffleProducers_padded [of b btcMerkleRoot blockTime now] by simp
  from L have "L + (23 - L - 1) = 22" by arith
  then have len: "length ?S = 22" using assms by simp
  have tk: "take L ?S = cands" using assms by simp
  from L have "0 < length cands" using assms by auto
  then have hd: "?S ! 0 = cands ! 0" by (simp add: nth_append)
  have clones: "\<forall>i. 1 \<le> i \<and> i \<le> 22 - L \<longrightarrow>
       0 < cloneSource L i \<and> cloneSource L i < L \<and>
       cloneSource L i = 1 + (i - 1) mod (L - 1) \<and>
       ?S ! (L + i - 1) = clonedProd (cands ! cloneSource L i) (int i) \<and>
       clonedFrom (?S ! (L + i - 1)) = AccountName (cands ! cloneSource L i)"
  proof (intro allI impI)
    fix i assume i: "1 \<le> i \<and> i \<le> 22 - L"
    then have "?S ! (L + i - 1) = cloneSeq cands i"
      using nth_padded [of i cands] assms by simp
    then have nth: "?S ! (L + i - 1) = clonedProd (cands ! cloneSource L i) (int i)"
      using assms by (simp add: cloneSeq_def)
    moreover have "clonedFrom (clonedProd (cands ! cloneSource L i) (int i))
        = AccountName (cands ! cloneSource L i)"
      by (simp add: clonedProd_def)
    moreover have "0 < cloneSource L i \<and> cloneSource L i < L"
      using L by (intro cloneSource_range) simp
    ultimately show "0 < cloneSource L i \<and> cloneSource L i < L \<and>
       cloneSource L i = 1 + (i - 1) mod (L - 1) \<and>
       ?S ! (L + i - 1) = clonedProd (cands ! cloneSource L i) (int i) \<and>
       clonedFrom (?S ! (L + i - 1)) = AccountName (cands ! cloneSource L i)"
      by (simp add: cloneSource_def)
  qed
  show "\<exists>b'. ShuffleProducers b btcMerkleRoot blockTime now = Some (Inr (None, b')) \<and>
      length (ShuffledProducers b') = 22 \<and>
      take L (ShuffledProducers b') = cands \<and>
      ShuffledProducers b' ! 0 = cands ! 0 \<and>
      (\<forall>i. 1 \<le> i \<and> i \<le> 22 - L \<longrightarrow>
         0 < cloneSource L i \<and> cloneSource L i < L \<and>
         cloneSource L i = 1 + (i - 1) mod (L - 1) \<and>
         ShuffledProducers b' ! (L + i - 1) = clonedProd (cands ! cloneSource L i) (int i) \<and>
         clonedFrom (ShuffledProducers b' ! (L + i - 1))
           = AccountName (cands ! cloneSource L i))"
  proof (rule exI [of _ ?b'], intro conjI)
    have sp: "ShuffledProducers ?b' = ?S" by simp
    show "ShuffleProducers b btcMerkleRoot blockTime now = Some (Inr (None, ?b'))" by (rule run)
    show "length (ShuffledProducers ?b') = 22" unfolding sp by (rule len)
    show "take L (ShuffledProducers ?b') = cands" unfolding sp by (rule tk)
    show "ShuffledProducers ?b' ! 0 = cands ! 0" unfolding sp by (rule hd)
    show "\<forall>i. 1 \<le> i \<and> i \<le> 22 - L \<longrightarrow>
         0 < cloneSource L i \<and> cloneSource L i < L \<and>
         cloneSource L i = 1 + (i - 1) mod (L - 1) \<and>
         ShuffledProducers ?b' ! (L + i - 1) = clonedProd (cands ! cloneSource L i) (int i) \<and>
         clonedFrom (ShuffledProducers ?b' ! (L + i - 1))
           = AccountName (cands ! cloneSource L i)"
      unfolding sp by (rule clones)
  qed
next
  assume "22 \<le> L"
  then have "ShuffleProducers b btcMerkleRoot blockTime now =
      Some (Inr (None, shuffleAssign b btcMerkleRoot blockTime now))"
    using assms by (simp add: ShuffleProducers_full)
  then show "\<exists>b'. ShuffleProducers b btcMerkleRoot blockTime now = Some (Inr (None, b')) \<and>
      ShuffledProducers b' = cands"
    using assms by simp
qed

theorem ShuffleProducers_schedule_witness:
  "fiveCandidates = Producers (LaunchData (exBIOS fiveCandidates ''alpha'')) \<and>
   5 = length fiveCandidates \<and> 2 \<le> (5::nat) \<and> (5::nat) < 22 \<and>
   (\<exists>b'. ShuffleProducers (exBIOS fiveCandidates ''alpha'') [] 0 0 = Some (Inr (None, b')) \<and>
      length (ShuffledProducers b') = 22 \<and>
      take 5 (ShuffledProducers b') = fiveCandidates \<and>
      ShuffledProducers b' ! 9 = clonedProd (fiveCandidates ! 1) 5) \<and>
   22 \<le> length (replicate 22 (exProducer ''alpha'' ''Alpha'')) \<and>
   (\<exists>b'. ShuffleProducers (exBIOS (replicate 22 (exProducer ''alpha'' ''Alpha'')) ''alpha'')
            [] 0 0 = Some (Inr (None, b')) \<and>
      ShuffledProducers b' = replicate 22 (exProducer ''alpha'' ''Alpha''))"
proof -
  have a: "fiveCandidates = Producers (LaunchData (exBIOS fiveCandidates ''alpha''))"
    by (simp add: exBIOS_def)
  have l: "5 = length fiveCandidates"
    by (simp add: fiveCandidates_def)
  have s: "cloneSource 5 5 = 1" by (simp add: cloneSource_def)
  from ShuffleProducers_schedule [OF a l, of "[]" 0 0]
  obtain b' where b':
    "ShuffleProducers (exBIOS fiveCandidates ''alpha'') [] 0 0 = Some (Inr (None, b'))"
    "length (ShuffledProducers b') = 22"
    "take 5 (ShuffledProducers b') = fiveCandidates"
    "\<forall>i. 1 \<le> i \<and> i \<le> 22 - 5 \<longrightarrow>
       ShuffledProducers b' ! (5 + i - 1) = clonedProd (fiveCandidates ! cloneSource 5 i) (int i)"
    by auto
  from b'(4) have "ShuffledProducers b' ! (5 + 5 - 1) = clonedProd (fiveCandidates ! cloneSource 5 5) (int 5)"
    by (rule allE [of _ 5]) simp
  then have "ShuffledProducers b' ! 9 = clonedProd (fiveCandidates ! 1) 5"
    by (simp add: s)
  with b'(1-3) have five:
    "\<exists>b'. ShuffleProducers (exBIOS fiveCandidates ''alpha'') [] 0 0 = Some (Inr (None, b')) \<and>
      length (ShuffledProducers b') = 22 \<and>
      take 5 (ShuffledProducers b') = fiveCandidates \<and>
      ShuffledProducers b' ! 9 = clonedProd (fiveCandidates ! 1) 5"
    by blast
  let ?full = "replicate 22 (exProducer ''alpha'' ''Alpha'')"
  have a': "?full = Producers (LaunchData (exBIOS ?full ''alpha''))"
    by (simp add: exBIOS_def)
  have l': "22 = length ?full" by simp
  from ShuffleProducers_schedule [OF a' l', of "[]" 0 0]
  have full: "\<exists>b'. ShuffleProducers (exBIOS ?full ''alpha'') [] 0 0 = Some (Inr (None, b')) \<and>
      ShuffledProducers b' = ?full"
    by simp
  from a l five full show ?thesis by simp
qed

lemma accountVariation_letter:
  assumes "1 \<le> i" "i \<le> 26"
  shows "accountVariation name (int i) = take 10 name @ ''.'' @ [alphabet ! (i - 1)]"
proof -
  from assms obtain j where j: "i = Suc j" "j < 26" by (cases i) auto
  have "(if length name > 10 then take 10 name else name) = take 10 name" by simp
  then show ?thesis
    using letter_char [OF j(2)] j by (simp add: accountVariation_def Let_def)
qed

lemma clone_names_distinct:
  assumes "n \<le> 27"
  shows "distinct (map (\<lambda>i. AccountName (cloneSeq cands i)) [1 ..< n])"
proof -
  have inj: "inj_on (\<lambda>i. AccountName (cloneSeq cands i)) (set [1 ..< n])"
  proof (rule inj_onI)
    fix i j
    assume i: "i \<in> set [1 ..< n]" and j: "j \<in> set [1 ..< n]"
      and eq: "AccountName (cloneSeq cands i) = AccountName (cloneSeq cands j)"
    from i j assms have r: "1 \<le> i" "i \<le> 26" "1 \<le> j" "j \<le> 26" by auto
    from eq have "last (AccountName (cloneSeq cands i)) = last (AccountName (cloneSeq cands j))"
      by simp
    then have "alphabet ! (i - 1) = alphabet ! (j - 1)"
      using r by (simp add: cloneSeq_def clonedProd_def accountVariation_letter)
    moreover have "i - 1 < length alphabet" "j - 1 < length alphabet"
      using r by (simp_all add: distinct_alphabet)
    ultimately have "i - 1 = j - 1"
      using distinct_alphabet(1) by (simp add: nth_eq_iff_index_eq)
    with r show "i = j" by simp
  qed
  then show ?thesis by (simp add: distinct_map)
qed

text \<open>
  Claim C7, as the code has it. Every clone appended by the padding has the account
  name of its source, shortened to at most 10 characters, followed by a dot and one
  lowercase letter; the letter advances by one with each appended clone (\<open>a\<close>, \<open>b\<close>,
  \<open>c\<close>, ...). The account names of the clones are pairwise distinct. The authority, the
  block signing key, the Keybase user, the PGP key, the time zone and the URLs are
  copied from the source; the organization name is the one of the source followed by
  \<^verbatim>\<open> - clone \<close> and the number of the clone; \<^verbatim>\<open>clonedFrom\<close> is the account of the
  source.
\<close>

theorem clone_accounts:
  assumes "cands = Producers (LaunchData b)" and "L = length cands"
    and "2 \<le> L" and "L < 22"
  shows "\<exists>b'. ShuffleProducers b btcMerkleRoot blockTime now = Some (Inr (None, b')) \<and>
     distinct (map AccountName (drop L (ShuffledProducers b'))) \<and>
     (\<forall>i. 1 \<le> i \<and> i \<le> 22 - L \<longrightarrow>
        AccountName (ShuffledProducers b' ! (L + i - 1))
          = take 10 (AccountName (cands ! cloneSource L i)) @ ''.'' @ [alphabet ! (i - 1)] \<and>
        i - 1 < length alphabet \<and>
        Authority (ShuffledProducers b' ! (L + i - 1)) = Authority (cands ! cloneSource L i) \<and>
        InitialBlockSigningPublicKey (ShuffledProducers b' ! (L + i - 1))
          = InitialBlockSigningPublicKey (cands ! cloneSource L i) \<and>
        KeybaseUser (ShuffledProducers b' ! (L + i - 1)) = KeybaseUser (cands ! cloneSource L i) \<and>
        PGPPublicKey (ShuffledProducers b' ! (L + i - 1)) = PGPPublicKey (cands ! cloneSource L i) \<and>
        Timezone (ShuffledProducers b' ! (L + i - 1)) = Timezone (cands ! cloneSource L i) \<and>
        URLs (ShuffledProducers b' ! (L + i - 1)) = URLs (cands ! cloneSource L i) \<and>
        OrganizationName (ShuffledProducers b' ! (L + i - 1))
          = OrganizationName (cands ! cloneSource L i) @ '' - clone '' @ itoa (int i) \<and>
        clonedFrom (ShuffledProducers b' ! (L + i - 1)) = AccountName (cands ! cloneSource L i))"
proof -
  let ?S = "cands @ map (cloneSeq cands) [1 ..< 23 - L]"
  let ?b' = "(shuffleAssign b btcMerkleRoot blockTime now) \<lparr> ShuffledProducers := ?S \<rparr>"
  have sp: "ShuffledProducers ?b' = ?S" by simp
  have run: "ShuffleProducers b btcMerkleRoot blockTime now = Some (Inr (None, ?b'))"
    using assms ShuffleProducers_padded [of b btcMerkleRoot blockTime now] by simp
  have "23 - L \<le> 27" by simp
  then have "distinct (map (\<lambda>i. AccountName (cloneSeq cands i)) [1 ..< 23 - L])"
    by (rule clone_names_distinct)
  then have dist: "distinct (map AccountName (drop L ?S))"
    using assms(2) by (simp add: comp_def)
  have clones: "\<forall>i. 1 \<le> i \<and> i \<le> 22 - L \<longrightarrow>
        AccountName (?S ! (L + i - 1))
          = take 10 (AccountName (cands ! cloneSource L i)) @ ''.'' @ [alphabet ! (i - 1)] \<and>
        i - 1 < length alphabet \<and>
        Authority (?S ! (L + i - 1)) = Authority (cands ! cloneSource L i) \<and>
        InitialBlockSigningPublicKey (?S ! (L + i - 1))
          = InitialBlockSigningPublicKey (cands ! cloneSource L i) \<and>
        KeybaseUser (?S ! (L + i - 1)) = KeybaseUser (cands ! cloneSource L i) \<and>
        PGPPublicKey (?S ! (L + i - 1)) = PGPPublicKey (cands ! cloneSource L i) \<and>
        Timezone (?S ! (L + i - 1)) = Timezone (cands ! cloneSource L i) \<and>
        URLs (?S ! (L + i - 1)) = URLs (cands ! cloneSource L i) \<and>
        OrganizationName (?S ! (L + i - 1))
          = OrganizationName (cands ! cloneSource L i) @ '' - clone '' @ itoa (int i) \<and>
        clonedFrom (?S ! (L + i - 1)) = AccountName (cands ! cloneSource L i)"
  proof (intro allI impI)
    fix i assume i: "1 \<le> i \<and> i \<le> 22 - L"
    then have nth: "?S ! (L + i - 1) = clonedProd (cands ! cloneSource L i) (int i)"
      using nth_padded [of i cands] assms(2) by (simp add: cloneSeq_def)
    from i have i26: "1 \<le> i" "i \<le> 26" by arith+
    have acct: "accountVariation (AccountName (cands ! cloneSource L i)) (int i)
        = take 10 (AccountName (cands ! cloneSource L i)) @ ''.'' @ [alphabet ! (i - 1)]"
      using i26 by (rule accountVariation_letter)
    have "i - 1 < length alphabet" using i26 by (simp add: distinct_alphabet)
    then show "AccountName (?S ! (L + i - 1))
          = take 10 (AccountName (cands ! cloneSource L i)) @ ''.'' @ [alphabet ! (i - 1)] \<and>
        i - 1 < length alphabet \<and>
        Authority (?S ! (L + i - 1)) = Authority (cands ! cloneSource L i) \<and>
        InitialBlockSigningPublicKey (?S ! (L + i - 1))
          = InitialBlockSigningPublicKey (cands ! cloneSource L i) \<and>
        KeybaseUser (?S ! (L + i - 1)) = KeybaseUser (cands ! cloneSource L i) \<and>
        PGPPublicKey (?S ! (L + i - 1)) = PGPPublicKey (cands ! cloneSource L i) \<and>
        Timezone (?S ! (L + i - 1)) = Timezone (cands ! cloneSource L i) \<and>
        URLs (?S ! (L + i - 1)) = URLs (cands ! cloneSource L i) \<and>
        OrganizationName (?S ! (L + i - 1))
          = OrganizationName (cands ! cloneSource L i) @ '' - clone '' @ itoa (int i) \<and>
        clonedFrom (?S ! (L + i - 1)) = AccountName (cands ! cloneSource L i)"
      unfolding nth using acct by (simp add: clonedProd_def)
  qed
  show ?thesis
    by (rule exI [of _ ?b'], unfold sp, intro conjI run dist clones)
qed

text \<open>
  Claim C7 as it is written fails on five candidates: the first clone, in slot 5, is
  named \<^verbatim>\<open>alpha.a\<close>, not \<^verbatim>\<open>alphaa\<close> (the shortened name followed by the letter
  alone), and its organization name is not the one of its source.
\<close>

theorem clone_accounts_counterexample:
  "AccountName (scheduleOf (ShuffleProducers (exBIOS fiveCandidates ''alpha'') [] 0 0) ! 5)
     = ''alpha.a'' \<and>
   take 10 (AccountName (fiveCandidates ! 1)) @ ''a'' = ''alphaa'' \<and>
   OrganizationName (scheduleOf (ShuffleProducers (exBIOS fiveCandidates ''alpha'') [] 0 0) ! 5)
     = ''Alpha - clone 1'' \<and>
   OrganizationName (fiveCandidates ! 1) = ''Alpha''"
  by code_simp

text \<open>
  On five candidates: the fourth clone, in slot 8, comes from candidate 4, whose
  account of 13 characters is cut to 10.
\<close>

theorem clone_accounts_witness:
  "fiveCandidates = Producers (LaunchData (exBIOS fiveCandidates ''alpha'')) \<and>
   5 = length fiveCandidates \<and> 2 \<le> (5::nat) \<and> (5::nat) < 22 \<and>
   (\<exists>b'. ShuffleProducers (exBIOS fiveCandidates ''alpha'') [] 0 0 = Some (Inr (None, b')) \<and>
      distinct (map AccountName (drop 5 (ShuffledProducers b'))) \<and>
      AccountName (ShuffledProducers b' ! 8) = ''deltaprodu.d'' \<and>
      OrganizationName (ShuffledProducers b' ! 8) = ''Delta - clone 4'' \<and>
      clonedFrom (ShuffledProducers b' ! 8) = ''deltaproducer'')"
proof -
  have a: "fiveCandidates = Producers (LaunchData (exBIOS fiveCandidates ''alpha''))"
    by (simp add: exBIOS_def)
  have l: "5 = length fiveCandidates"
    by (simp add: fiveCandidates_def)
  have s: "fiveCandidates ! cloneSource 5 4 = exProducer ''deltaproducer'' ''Delta''"
    by (simp add: cloneSource_def fiveCandidates_def)
  have d: "itoa (int 4) = ''4''" "alphabet ! (4 - 1) = CHR ''d''"
    by code_simp+
  from clone_accounts [OF a l, of "[]" 0 0]
  obtain b' where b':
    "ShuffleProducers (exBIOS fiveCandidates ''alpha'') [] 0 0 = Some (Inr (None, b'))"
    "distinct (map AccountName (drop 5 (ShuffledProducers b')))"
    "\<forall>i. 1 \<le> i \<and> i \<le> 22 - 5 \<longrightarrow>
        AccountName (ShuffledProducers b' ! (5 + i - 1))
          = take 10 (AccountName (fiveCandidates ! cloneSource 5 i)) @ ''.'' @ [alphabet ! (i - 1)] \<and>
        OrganizationName (ShuffledProducers b' ! (5 + i - 1))
          = OrganizationName (fiveCandidates ! cloneSource 5 i) @ '' - clone '' @ itoa (int i) \<and>
        clonedFrom (ShuffledProducers b' ! (5 + i - 1))
          = AccountName (fiveCandidates ! cloneSource 5 i)"
    by auto
  from b'(3) have
    "AccountName (ShuffledProducers b' ! (5 + 4 - 1))
          = take 10 (AccountName (fiveCandidates ! cloneSource 5 4)) @ ''.'' @ [alphabet ! (4 - 1)] \<and>
        OrganizationName (ShuffledProducers b' ! (5 + 4 - 1))
          = OrganizationName (fiveCandidates ! cloneSource 5 4) @ '' - clone '' @ itoa (int 4) \<and>
        clonedFrom (ShuffledProducers b' ! (5 + 4 - 1))
          = AccountName (fiveCandidates ! cloneSource 5 4)"
    by (rule allE [of _ 4]) simp
  then have "AccountName (ShuffledProducers b' ! 8) = ''deltaprodu.d'' \<and>
      OrganizationName (ShuffledProducers b' ! 8) = ''Delta - clone 4'' \<and>
      clonedFrom (ShuffledProducers b' ! 8) = ''deltaproducer''"
    unfolding s d by (simp add: exProducer_def)
  with a l b'(1,2) show ?thesis by auto
qed

text \<open>
  Claim C10. With exactly one candidate, the padding loop takes \<^verbatim>\<open>count % cloneCount\<close>
  with \<^verbatim>\<open>cloneCount = 0\<close>: \<^verbatim>\<open>ShuffleProducers\<close> ends in the division-by-zero
  panic, not in a returned error. \<^verbatim>\<open>ShuffleProducers\<close> returns if and only if there
  are at least two candidates.
\<close>

theorem ShuffleProducers_single_candidate:
  "(length (Producers (LaunchData b)) = 1 \<longrightarrow>
      padLoop (Producers (LaunchData b)) (int (length (Producers (LaunchData b))) - 1) 0
        = Some (Inl DivideByZero) \<and>
      ShuffleProducers b btcMerkleRoot blockTime now = Some (Inl DivideByZero)) \<and>
   ((\<exists>res. ShuffleProducers b btcMerkleRoot blockTime now = Some (Inr res))
      \<longleftrightarrow> 2 \<le> length (Producers (LaunchData b)))"
proof -
  let ?L = "length (Producers (LaunchData b))"
  have one: "?L = 1 \<longrightarrow>
      padLoop (Producers (LaunchData b)) (int ?L - 1) 0 = Some (Inl DivideByZero) \<and>
      ShuffleProducers b btcMerkleRoot blockTime now = Some (Inl DivideByZero)"
  proof
    assume l: "?L = 1"
    have "padLoop (Producers (LaunchData b)) 0 0 = Some (Inl DivideByZero)"
      using l by (subst padLoop.simps) simp
    with l show "padLoop (Producers (LaunchData b)) (int ?L - 1) 0 = Some (Inl DivideByZero) \<and>
      ShuffleProducers b btcMerkleRoot blockTime now = Some (Inl DivideByZero)"
      by (simp add: ShuffleProducers_one)
  qed
  consider "?L = 0" | "?L = 1" | "2 \<le> ?L \<and> ?L < 22" | "22 \<le> ?L" by arith
  then have "(\<exists>res. ShuffleProducers b btcMerkleRoot blockTime now = Some (Inr res))
      \<longleftrightarrow> 2 \<le> ?L"
  proof cases
    case 1
    then show ?thesis by (simp add: ShuffleProducers_none)
  next
    case 2
    then show ?thesis by (simp add: ShuffleProducers_one)
  next
    case 3
    then show ?thesis by (simp add: ShuffleProducers_padded)
  next
    case 4
    then show ?thesis by (simp add: ShuffleProducers_full)
  qed
  with one show ?thesis by blast
qed

theorem ShuffleProducers_single_candidate_witness:
  "length (Producers (LaunchData (exBIOS [exProducer ''eosboot'' ''Boot''] ''eosboot''))) = 1 \<and>
   ShuffleProducers (exBIOS [exProducer ''eosboot'' ''Boot''] ''eosboot'') [] 0 0
     = Some (Inl DivideByZero)"
  using ShuffleProducers_single_candidate [of "exBIOS [exProducer ''eosboot'' ''Boot''] ''eosboot''" "[]" 0 0]
  by (simp add: exBIOS_def)

section \<open>Properties of the roles\<close>

lemma isABPLoop_iff:
  "isABPLoop ps a i \<longleftrightarrow> (\<exists>j. i \<le> j \<and> j < 22 \<and> j < length ps \<and> AccountName (ps ! j) = a)"
proof (induction ps a i rule: isABPLoop.induct)
  case (1 ps a i)
  show ?case
  proof (cases "i < 22 \<and> length ps > i")
    case False
    then have "\<not> isABPLoop ps a i" by (subst isABPLoop.simps) auto
    moreover from False have "\<not> (\<exists>j. i \<le> j \<and> j < 22 \<and> j < length ps \<and> AccountName (ps ! j) = a)"
      by auto
    ultimately show ?thesis by simp
  next
    case True
    show ?thesis
    proof (cases "AccountName (ps ! i) = a")
      case eq: True
      with True have "isABPLoop ps a i" by (subst isABPLoop.simps) simp
      moreover from True eq have "\<exists>j. i \<le> j \<and> j < 22 \<and> j < length ps \<and> AccountName (ps ! j) = a"
        by (intro exI [of _ i]) simp
      ultimately show ?thesis by simp
    next
      case ne: False
      with True have "isABPLoop ps a i = isABPLoop ps a (i + 1)"
        by (subst isABPLoop.simps) simp
      also have "\<dots> \<longleftrightarrow> (\<exists>j. i + 1 \<le> j \<and> j < 22 \<and> j < length ps \<and> AccountName (ps ! j) = a)"
        using 1 True ne by simp
      also have "\<dots> \<longleftrightarrow> (\<exists>j. i \<le> j \<and> j < 22 \<and> j < length ps \<and> AccountName (ps ! j) = a)"
      proof
        assume "\<exists>j. i + 1 \<le> j \<and> j < 22 \<and> j < length ps \<and> AccountName (ps ! j) = a"
        then show "\<exists>j. i \<le> j \<and> j < 22 \<and> j < length ps \<and> AccountName (ps ! j) = a"
          by (metis Suc_eq_plus1 Suc_leD)
      next
        assume "\<exists>j. i \<le> j \<and> j < 22 \<and> j < length ps \<and> AccountName (ps ! j) = a"
        then obtain j where j: "i \<le> j" "j < 22" "j < length ps" "AccountName (ps ! j) = a"
          by blast
        with ne have "j \<noteq> i" by auto
        with j(1) have "i + 1 \<le> j" by simp
        with j show "\<exists>j. i + 1 \<le> j \<and> j < 22 \<and> j < length ps \<and> AccountName (ps ! j) = a"
          by blast
      qed
      finally show ?thesis .
    qed
  qed
qed

lemma IsBootNode_nonempty:
  "ShuffledProducers b \<noteq> [] \<Longrightarrow>
   IsBootNode b account = Inr (AccountName (ShuffledProducers b ! 0) = account)"
  by (cases "ShuffledProducers b") (simp_all add: IsBootNode_def)

text \<open>
  Claim C3, as the code has it. For a schedule of 22 producers and the local account,
  \<^verbatim>\<open>Run\<close> takes the boot node branch if and only if the account of slot 0 is the
  local account. \<^verbatim>\<open>AmIAppointedBlockProducer\<close> holds if and only if the local account
  is the account of some entry in slots 1 to 21, but \<^verbatim>\<open>Run\<close> asks it only after
  \<^verbatim>\<open>AmIBootNode\<close> failed: the branch of the appointed block producers is taken if
  and only if the local account is not the account of slot 0 and is the account of some
  entry in slots 1 to 21. In every other case \<^verbatim>\<open>Run\<close> takes the branch of the
  participants.
\<close>

theorem Run_branch_roles:
  assumes "length (ShuffledProducers b) = 22"
    and "local = MyAccount (Producer (Config b))"
  shows "(Run_branch b = Inr RunBootNodeStage1
            \<longleftrightarrow> AccountName (ShuffledProducers b ! 0) = local) \<and>
         (AmIAppointedBlockProducer b
            \<longleftrightarrow> (\<exists>i. 1 \<le> i \<and> i \<le> 21 \<and> AccountName (ShuffledProducers b ! i) = local)) \<and>
         (Run_branch b = Inr RunABPStage1
            \<longleftrightarrow> AccountName (ShuffledProducers b ! 0) \<noteq> local \<and>
                (\<exists>i. 1 \<le> i \<and> i \<le> 21 \<and> AccountName (ShuffledProducers b ! i) = local)) \<and>
         (Run_branch b = Inr WaitStage1End
            \<longleftrightarrow> AccountName (ShuffledProducers b ! 0) \<noteq> local \<and>
                \<not> (\<exists>i. 1 \<le> i \<and> i \<le> 21 \<and> AccountName (ShuffledProducers b ! i) = local))"
proof -
  from assms(1) have ne: "ShuffledProducers b \<noteq> []" by auto
  have boot: "AmIBootNode b = Inr (AccountName (ShuffledProducers b ! 0) = local)"
    using IsBootNode_nonempty [OF ne] assms(2) by (simp add: AmIBootNode_def)
  have "AmIAppointedBlockProducer b \<longleftrightarrow>
      (\<exists>j. 1 \<le> j \<and> j < 22 \<and> j < length (ShuffledProducers b) \<and>
           AccountName (ShuffledProducers b ! j) = local)"
    using assms(2)
    by (simp add: AmIAppointedBlockProducer_def IsAppointedBlockProducer_def isABPLoop_iff)
  also have "\<dots> \<longleftrightarrow> (\<exists>i. 1 \<le> i \<and> i \<le> 21 \<and> AccountName (ShuffledProducers b ! i) = local)"
    unfolding assms(1) by (intro ex_cong1) auto
  finally have abp: "AmIAppointedBlockProducer b \<longleftrightarrow>
      (\<exists>i. 1 \<le> i \<and> i \<le> 21 \<and> AccountName (ShuffledProducers b ! i) = local)" .
  show ?thesis
    unfolding abp [symmetric]
    by (cases "AccountName (ShuffledProducers b ! 0) = local")
       (simp_all add: Run_branch_def boot)
qed

text \<open>
  Claim C3 as it is written fails where the local account stands in slot 0 and again in
  a later slot. With the candidates \<^verbatim>\<open>alpha.a\<close> and \<^verbatim>\<open>alpha\<close>, the first clone of
  \<^verbatim>\<open>alpha\<close>, in slot 2, is named \<^verbatim>\<open>alpha.a\<close> like the boot node: the local account
  \<^verbatim>\<open>alpha.a\<close> is the account of an entry in slots 1 to 21, and \<^verbatim>\<open>Run\<close> takes the
  boot node branch.
\<close>

theorem Run_branch_roles_counterexample:
  "length (ShuffledProducers clashBIOS) = 22 \<and>
   AccountName (ShuffledProducers clashBIOS ! 2) = MyAccount (Producer (Config clashBIOS)) \<and>
   Run_branch clashBIOS = Inr RunBootNodeStage1 \<and>
   Run_branch clashBIOS \<noteq> Inr RunABPStage1"
  by code_simp

theorem Run_branch_roles_witness:
  "length (ShuffledProducers (shuffled (exBIOS fiveCandidates ''bravo''))) = 22 \<and>
   ''bravo'' = MyAccount (Producer (Config (shuffled (exBIOS fiveCandidates ''bravo'')))) \<and>
   Run_branch (shuffled (exBIOS fiveCandidates ''bravo'')) = Inr RunABPStage1 \<and>
   AccountName (ShuffledProducers (shuffled (exBIOS fiveCandidates ''bravo'')) ! 0) \<noteq> ''bravo'' \<and>
   (\<exists>i. 1 \<le> i \<and> i \<le> 21 \<and>
      AccountName (ShuffledProducers (shuffled (exBIOS fiveCandidates ''bravo'')) ! i) = ''bravo'') \<and>
   AccountName (ShuffledProducers (shuffled (exBIOS fiveCandidates ''eosboot'')) ! 0) = ''eosboot'' \<and>
   Run_branch (shuffled (exBIOS fiveCandidates ''eosboot'')) = Inr RunBootNodeStage1 \<and>
   Run_branch (shuffled (exBIOS fiveCandidates ''zulu'')) = Inr WaitStage1End \<and>
   \<not> (\<exists>i. 1 \<le> i \<and> i \<le> 21 \<and>
      AccountName (ShuffledProducers (shuffled (exBIOS fiveCandidates ''zulu'')) ! i) = ''zulu'')"
proof -
  let ?e = "shuffled (exBIOS fiveCandidates ''eosboot'')"
  have le: "length (ShuffledProducers ?e) = 22" by code_simp
  have ae: "''eosboot'' = MyAccount (Producer (Config ?e))" by code_simp
  have se: "AccountName (ShuffledProducers ?e ! 0) = ''eosboot''" by code_simp
  from Run_branch_roles [OF le ae] se
  have re: "Run_branch ?e = Inr RunBootNodeStage1" by blast
  let ?z = "shuffled (exBIOS fiveCandidates ''zulu'')"
  have lz: "length (ShuffledProducers ?z) = 22" by code_simp
  have az: "''zulu'' = MyAccount (Producer (Config ?z))" by code_simp
  have rz: "Run_branch ?z = Inr WaitStage1End" by code_simp
  from Run_branch_roles [OF lz az] rz
  have nz: "\<not> (\<exists>i. 1 \<le> i \<and> i \<le> 21 \<and> AccountName (ShuffledProducers ?z ! i) = ''zulu'')"
    by blast
  let ?b = "shuffled (exBIOS fiveCandidates ''bravo'')"
  have l: "length (ShuffledProducers ?b) = 22" by code_simp
  have a: "''bravo'' = MyAccount (Producer (Config ?b))" by code_simp
  have r: "Run_branch ?b = Inr RunABPStage1" by code_simp
  from Run_branch_roles [OF l a] r
  have "AccountName (ShuffledProducers ?b ! 0) \<noteq> ''bravo'' \<and>
     (\<exists>i. 1 \<le> i \<and> i \<le> 21 \<and> AccountName (ShuffledProducers ?b ! i) = ''bravo'')"
    by blast
  with l a r se re rz nz show ?thesis by blast
qed

lemma foldl_append_filter:
  "foldl (\<lambda>out p. if P p then out @ [p] else out) acc xs = acc @ filter P xs"
  by (induction xs arbitrary: acc) simp_all

lemma MyProducerDef_loop_find:
  "MyProducerDef_loop ps a =
     (case find (\<lambda>p. AccountName p = a) ps of
        None \<Rightarrow> Inl NoLocalProducerConfigFound
      | Some p \<Rightarrow> Inr p)"
  by (induction ps) auto

lemma find_None_image: "find (\<lambda>p. f p = a) ps = None \<longleftrightarrow> a \<notin> f ` set ps"
  by (auto simp: find_None_iff)

lemma find_Some_first:
  "find P ps = Some p \<Longrightarrow>
   \<exists>k < length ps. ps ! k = p \<and> P p \<and> (\<forall>j < k. \<not> P (ps ! j))"
  by (auto simp: find_Some_iff)

text \<open>
  Claim C6. \<^verbatim>\<open>setMyProducerDefs\<close> succeeds if and only if the local account is the
  account of some producer of the launch data (the candidates before padding); otherwise
  it fails with the error of \<^verbatim>\<open>MyProducerDef\<close>. On success \<^verbatim>\<open>MyProducerDefs\<close> is not
  empty: its first element is the first candidate with the local account, and the rest
  are exactly the schedule entries whose \<^verbatim>\<open>clonedFrom\<close> is the local account, in the
  order of the schedule. Nothing else of the \<^verbatim>\<open>BIOS\<close> changes.
\<close>

theorem setMyProducerDefs_result:
  assumes "cands = Producers (LaunchData b)"
    and "local = MyAccount (Producer (Config b))"
  shows "((\<exists>b'. setMyProducerDefs b = Inr b') \<longleftrightarrow> local \<in> AccountName ` set cands) \<and>
         (local \<notin> AccountName ` set cands \<longrightarrow>
            setMyProducerDefs b = Inl NoLocalProducerConfigFound) \<and>
         (\<forall>b'. setMyProducerDefs b = Inr b' \<longrightarrow>
            (\<exists>k < length cands.
               AccountName (cands ! k) = local \<and>
               (\<forall>j < k. AccountName (cands ! j) \<noteq> local) \<and>
               MyProducerDefs b' =
                 cands ! k # filter (\<lambda>p. clonedFrom p = local) (ShuffledProducers b) \<and>
               MyProducerDefs b' \<noteq> [] \<and>
               b' = b\<lparr> MyProducerDefs := MyProducerDefs b' \<rparr>))"
proof (cases "find (\<lambda>p. AccountName p = local) cands")
  case None
  then have notin: "local \<notin> AccountName ` set cands"
    by (simp add: find_None_image)
  from None have "setMyProducerDefs b = Inl NoLocalProducerConfigFound"
    using assms by (simp add: setMyProducerDefs_def MyProducerDef_def MyProducerDef_loop_find)
  with notin show ?thesis by simp
next
  case (Some p)
  then have "find (\<lambda>p. AccountName p = local) cands \<noteq> None" by simp
  then have isin: "local \<in> AccountName ` set cands"
    by (simp add: find_None_image)
  from find_Some_first [OF Some] obtain k where k:
    "k < length cands" "cands ! k = p" "AccountName p = local"
    "\<forall>j < k. AccountName (cands ! j) \<noteq> local"
    by blast
  let ?out = "p # filter (\<lambda>q. clonedFrom q = local) (ShuffledProducers b)"
  have run: "setMyProducerDefs b = Inr (b\<lparr> MyProducerDefs := ?out \<rparr>)"
    using Some assms k(3)
    by (simp add: setMyProducerDefs_def MyProducerDef_def MyProducerDef_loop_find
        foldl_append_filter)
  have "\<exists>k < length cands.
      AccountName (cands ! k) = local \<and>
      (\<forall>j < k. AccountName (cands ! j) \<noteq> local) \<and>
      MyProducerDefs (b\<lparr> MyProducerDefs := ?out \<rparr>) =
        cands ! k # filter (\<lambda>p. clonedFrom p = local) (ShuffledProducers b) \<and>
      MyProducerDefs (b\<lparr> MyProducerDefs := ?out \<rparr>) \<noteq> [] \<and>
      b\<lparr> MyProducerDefs := ?out \<rparr> =
        b\<lparr> MyProducerDefs := MyProducerDefs (b\<lparr> MyProducerDefs := ?out \<rparr>) \<rparr>"
    using k by (intro exI [of _ k]) simp
  with run isin show ?thesis by simp
qed

text \<open>
  On the schedule of five candidates, the operator of \<^verbatim>\<open>alpha\<close> answers to its own
  entry and to the five clones made from it.
\<close>

theorem setMyProducerDefs_result_witness:
  "fiveCandidates = Producers (LaunchData (shuffled (exBIOS fiveCandidates ''alpha''))) \<and>
   ''alpha'' = MyAccount (Producer (Config (shuffled (exBIOS fiveCandidates ''alpha'')))) \<and>
   ''alpha'' \<in> AccountName ` set fiveCandidates \<and>
   (\<exists>b'. setMyProducerDefs (shuffled (exBIOS fiveCandidates ''alpha'')) = Inr b' \<and>
      map AccountName (MyProducerDefs b')
        = [''alpha'', ''alpha.a'', ''alpha.e'', ''alpha.i'', ''alpha.m'', ''alpha.q'']) \<and>
   ''zulu'' \<notin> AccountName ` set fiveCandidates \<and>
   setMyProducerDefs (shuffled (exBIOS fiveCandidates ''zulu'')) = Inl NoLocalProducerConfigFound"
proof -
  let ?b = "shuffled (exBIOS fiveCandidates ''alpha'')"
  let ?z = "shuffled (exBIOS fiveCandidates ''zulu'')"
  have cz: "fiveCandidates = Producers (LaunchData ?z)"
    by (simp add: shuffled_def exBIOS_def)
  have az: "''zulu'' = MyAccount (Producer (Config ?z))"
    by (simp add: shuffled_def exBIOS_def)
  have iz: "''zulu'' \<notin> AccountName ` set fiveCandidates"
    by (simp add: fiveCandidates_def exProducer_def)
  from setMyProducerDefs_result [OF cz az] iz
  have fz: "setMyProducerDefs ?z = Inl NoLocalProducerConfigFound"
    by blast
  have c: "fiveCandidates = Producers (LaunchData ?b)"
    by (simp add: shuffled_def exBIOS_def)
  have a: "''alpha'' = MyAccount (Producer (Config ?b))"
    by (simp add: shuffled_def exBIOS_def)
  have i: "''alpha'' \<in> AccountName ` set fiveCandidates"
    by (simp add: fiveCandidates_def exProducer_def)
  have f: "map AccountName (filter (\<lambda>p. clonedFrom p = ''alpha'') (ShuffledProducers ?b))
      = [''alpha.a'', ''alpha.e'', ''alpha.i'', ''alpha.m'', ''alpha.q'']"
    by code_simp
  from setMyProducerDefs_result [OF c a] i
  obtain b' k where b': "setMyProducerDefs ?b = Inr b'"
    and k: "AccountName (fiveCandidates ! k) = ''alpha''"
      "MyProducerDefs b' =
        fiveCandidates ! k # filter (\<lambda>p. clonedFrom p = ''alpha'') (ShuffledProducers ?b)"
    by blast
  from k f have m: "map AccountName (MyProducerDefs b')
      = [''alpha'', ''alpha.a'', ''alpha.e'', ''alpha.i'', ''alpha.m'', ''alpha.q'']"
    by simp
  show ?thesis
    by (intro conjI exI [of _ b']) (rule c a i b' m iz fz)+
qed

section \<open>Properties of the verification loop\<close>

lemma continue_iff_not_disabled:
  "(length (Permissions acct) \<noteq> 2
     \<or> RequiredAuth_Threshold (Permissions acct ! 0) \<noteq> 0
     \<or> RequiredAuth_Threshold (Permissions acct ! 1) \<noteq> 0)
   \<longleftrightarrow> \<not> reportsDisabled (Inr acct)"
proof (cases "length (Permissions acct) = 2")
  case False
  then show ?thesis by (simp add: reportsDisabled_def)
next
  case True
  then obtain p q where "Permissions acct = [p, q]"
    by (cases "Permissions acct"; cases "tl (Permissions acct)") auto
  then show ?thesis by (simp add: reportsDisabled_def)
qed

lemma abpVerifyLoop_continue:
  assumes "\<not> reportsDisabled (getAccount n)"
  shows "abpVerifyLoop getAccount n printed =
     abpVerifyLoop getAccount (n + 1)
       (printed @ (case getAccount n of Inl err \<Rightarrow> ''e'' | Inr acct \<Rightarrow> ''.''))"
proof (cases "getAccount n")
  case (Inl err)
  then show ?thesis by (subst abpVerifyLoop.simps) simp
next
  case (Inr acct)
  with assms have "length (Permissions acct) \<noteq> 2
     \<or> RequiredAuth_Threshold (Permissions acct ! 0) \<noteq> 0
     \<or> RequiredAuth_Threshold (Permissions acct ! 1) \<noteq> 0"
    using continue_iff_not_disabled [of acct] by metis
  with Inr show ?thesis by (subst abpVerifyLoop.simps) simp
qed

lemma abpVerifyLoop_break:
  assumes "reportsDisabled (getAccount n)"
  shows "abpVerifyLoop getAccount n printed = Some (n + 1, printed @ '' OKAY'' @ [CHR 0x0A])"
proof (cases "getAccount n")
  case (Inl err)
  with assms show ?thesis by (simp add: reportsDisabled_def)
next
  case (Inr acct)
  with assms have "\<not> (length (Permissions acct) \<noteq> 2
     \<or> RequiredAuth_Threshold (Permissions acct ! 0) \<noteq> 0
     \<or> RequiredAuth_Threshold (Permissions acct ! 1) \<noteq> 0)"
    using continue_iff_not_disabled [of acct] by metis
  with Inr show ?thesis by (subst abpVerifyLoop.simps) simp
qed

lemma abpVerifyLoop_Some_fst:
  "abpVerifyLoop getAccount n printed = Some y \<Longrightarrow>
   n < fst y \<and> reportsDisabled (getAccount (fst y - 1)) \<and>
   (\<forall>j. n \<le> j \<and> j < fst y - 1 \<longrightarrow> \<not> reportsDisabled (getAccount j))"
proof (induction rule: abpVerifyLoop.raw_induct [rotated 1, consumes 1, case_names body])
  case (body loop g n printed y)
  show ?case
  proof (cases "reportsDisabled (g n)")
    case True
    then obtain acct where acct: "g n = Inr acct"
      by (cases "g n") (simp_all add: reportsDisabled_def)
    from True acct have "\<not> (length (Permissions acct) \<noteq> 2
       \<or> RequiredAuth_Threshold (Permissions acct ! 0) \<noteq> 0
       \<or> RequiredAuth_Threshold (Permissions acct ! 1) \<noteq> 0)"
      using continue_iff_not_disabled [of acct] by metis
    with acct body(2) have "fst y = n + 1" by auto
    with True show ?thesis by auto
  next
    case False
    have "\<exists>c. loop g (n + 1) (printed @ c) = Some y"
    proof (cases "g n")
      case (Inl err)
      with body(2) show ?thesis by auto
    next
      case (Inr acct)
      with False have "length (Permissions acct) \<noteq> 2
         \<or> RequiredAuth_Threshold (Permissions acct ! 0) \<noteq> 0
         \<or> RequiredAuth_Threshold (Permissions acct ! 1) \<noteq> 0"
        using continue_iff_not_disabled [of acct] by metis
      with Inr body(2) show ?thesis by auto
    qed
    then obtain c where "loop g (n + 1) (printed @ c) = Some y" ..
    from body(1) [OF this] have ih: "n + 1 < fst y" "reportsDisabled (g (fst y - 1))"
      "\<forall>j. n + 1 \<le> j \<and> j < fst y - 1 \<longrightarrow> \<not> reportsDisabled (g j)"
      by simp_all
    have "\<forall>j. n \<le> j \<and> j < fst y - 1 \<longrightarrow> \<not> reportsDisabled (g j)"
    proof (intro allI impI)
      fix j assume j: "n \<le> j \<and> j < fst y - 1"
      show "\<not> reportsDisabled (g j)"
      proof (cases "j = n")
        case True
        with False show ?thesis by simp
      next
        case False
        with j have "n + 1 \<le> j \<and> j < fst y - 1" by simp
        with ih(3) show ?thesis by blast
      qed
    qed
    with ih show ?thesis by simp
  qed
qed

lemma abpVerifyLoop_Some:
  "abpVerifyLoop getAccount n printed = Some (m, printed') \<Longrightarrow>
   n < m \<and> reportsDisabled (getAccount (m - 1)) \<and>
   (\<forall>j. n \<le> j \<and> j < m - 1 \<longrightarrow> \<not> reportsDisabled (getAccount j))"
  using abpVerifyLoop_Some_fst [of getAccount n printed "(m, printed')"] by simp

lemma abpVerifyLoop_first:
  assumes "\<forall>j < k. \<not> reportsDisabled (getAccount (n + j))"
    and "reportsDisabled (getAccount (n + k))"
  shows "\<exists>printed'. abpVerifyLoop getAccount n printed = Some (n + k + 1, printed')"
  using assms
proof (induction k arbitrary: n printed)
  case 0
  then show ?case by (simp add: abpVerifyLoop_break)
next
  case (Suc k)
  from Suc.prems(1) have "\<not> reportsDisabled (getAccount (n + 0))" by blast
  then have "\<not> reportsDisabled (getAccount n)" by simp
  note step = abpVerifyLoop_continue [of getAccount n printed, OF this]
  have "\<forall>j < k. \<not> reportsDisabled (getAccount (n + 1 + j))"
  proof (intro allI impI)
    fix j assume "j < k"
    then have "Suc j < Suc k" by simp
    with Suc.prems(1) have "\<not> reportsDisabled (getAccount (n + Suc j))" by blast
    then show "\<not> reportsDisabled (getAccount (n + 1 + j))" by simp
  qed
  moreover have "reportsDisabled (getAccount (n + 1 + k))"
    using Suc.prems(2) by simp
  ultimately have "\<exists>printed'. abpVerifyLoop getAccount (n + 1)
      (printed @ (case getAccount n of Inl err \<Rightarrow> ''e'' | Inr acct \<Rightarrow> ''.''))
        = Some (n + 1 + k + 1, printed')"
    by (rule Suc.IH)
  then show ?case unfolding step by simp
qed

text \<open>
  Claim C9. The verification loop leaves only at a read that succeeded and reported
  exactly two permissions, each with threshold 0; no earlier read did. A read that failed
  and a read of an account not yet disabled have the same effect: one more second of
  sleep and one more read (the character printed differs). The loop has no bound: it
  never leaves while no read reports the disabled account, and it leaves after
  \<open>k + 1\<close> reads when the first such report is the answer to read \<open>k + 1\<close>, however
  large \<open>k\<close> is.
\<close>

theorem abpVerifyLoop_polls:
  "(\<forall>m printed'. abpVerifyLoop getAccount n printed = Some (m, printed') \<longrightarrow>
      n < m \<and> reportsDisabled (getAccount (m - 1)) \<and>
      (\<forall>j. n \<le> j \<and> j < m - 1 \<longrightarrow> \<not> reportsDisabled (getAccount j))) \<and>
   (\<not> reportsDisabled (getAccount n) \<longrightarrow>
      abpVerifyLoop getAccount n printed =
        abpVerifyLoop getAccount (n + 1)
          (printed @ (case getAccount n of Inl err \<Rightarrow> ''e'' | Inr acct \<Rightarrow> ''.''))) \<and>
   (reportsDisabled (getAccount n) \<longrightarrow>
      abpVerifyLoop getAccount n printed = Some (n + 1, printed @ '' OKAY'' @ [CHR 0x0A])) \<and>
   ((\<forall>j. n \<le> j \<longrightarrow> \<not> reportsDisabled (getAccount j)) \<longrightarrow>
      abpVerifyLoop getAccount n printed = None) \<and>
   (\<forall>k. (\<forall>j < k. \<not> reportsDisabled (getAccount (n + j))) \<and>
        reportsDisabled (getAccount (n + k)) \<longrightarrow>
      (\<exists>printed'. abpVerifyLoop getAccount n printed = Some (n + k + 1, printed')))"
proof (intro conjI allI impI)
  fix m printed'
  assume s: "abpVerifyLoop getAccount n printed = Some (m, printed')"
  from abpVerifyLoop_Some [OF s]
  show "n < m" "reportsDisabled (getAccount (m - 1))" by simp_all
  fix j assume "n \<le> j \<and> j < m - 1"
  with abpVerifyLoop_Some [OF s] show "\<not> reportsDisabled (getAccount j)" by blast
next
  assume "\<not> reportsDisabled (getAccount n)"
  then show "abpVerifyLoop getAccount n printed =
        abpVerifyLoop getAccount (n + 1)
          (printed @ (case getAccount n of Inl err \<Rightarrow> ''e'' | Inr acct \<Rightarrow> ''.''))"
    by (rule abpVerifyLoop_continue)
next
  assume "reportsDisabled (getAccount n)"
  then show "abpVerifyLoop getAccount n printed = Some (n + 1, printed @ '' OKAY'' @ [CHR 0x0A])"
    by (rule abpVerifyLoop_break)
next
  assume never: "\<forall>j. n \<le> j \<longrightarrow> \<not> reportsDisabled (getAccount j)"
  show "abpVerifyLoop getAccount n printed = None"
  proof (rule ccontr)
    assume "abpVerifyLoop getAccount n printed \<noteq> None"
    then obtain m printed' where s: "abpVerifyLoop getAccount n printed = Some (m, printed')"
      by auto
    from abpVerifyLoop_Some [OF s] have "n < m" "reportsDisabled (getAccount (m - 1))"
      by simp_all
    moreover from \<open>n < m\<close> have "n \<le> m - 1" by simp
    ultimately show False using never by blast
  qed
next
  fix k
  assume "(\<forall>j < k. \<not> reportsDisabled (getAccount (n + j))) \<and> reportsDisabled (getAccount (n + k))"
  then show "\<exists>printed'. abpVerifyLoop getAccount n printed = Some (n + k + 1, printed')"
    using abpVerifyLoop_first [of k getAccount n printed] by blast
qed

theorem abpVerifyLoop_polls_witness:
  "abpVerifyLoop exChain 0 [] = Some (6, ''eee.. OKAY'' @ [CHR 0x0A]) \<and>
   0 < (6::nat) \<and> reportsDisabled (exChain (6 - 1)) \<and>
   \<not> reportsDisabled (exChain 0) \<and>
   abpVerifyLoop exChain 0 [] = abpVerifyLoop exChain (0 + 1) ([] @ ''e'') \<and>
   reportsDisabled (exChain 5) \<and>
   abpVerifyLoop exChain 5 ''eee..'' = Some (5 + 1, ''eee..'' @ '' OKAY'' @ [CHR 0x0A]) \<and>
   abpVerifyLoop (\<lambda>i. Inl ''connection refused'') 0 [] = None"
proof -
  have d5: "reportsDisabled (exChain 5)"
    by (simp add: exChain_def reportsDisabled_def)
  from abpVerifyLoop_polls [of exChain 5 "''eee..''"] d5
  have b5: "abpVerifyLoop exChain 5 ''eee..'' = Some (5 + 1, ''eee..'' @ '' OKAY'' @ [CHR 0x0A])"
    by blast
  have run: "abpVerifyLoop exChain 0 [] = Some (6, ''eee.. OKAY'' @ [CHR 0x0A])"
    by code_simp
  have n0: "\<not> reportsDisabled (exChain 0)"
    by (simp add: exChain_def reportsDisabled_def)
  have e0: "(case exChain 0 of Inl err \<Rightarrow> ''e'' | Inr acct \<Rightarrow> ''.'') = ''e''"
    by (simp add: exChain_def)
  from abpVerifyLoop_polls [of exChain 0 "[]"] run
  have "0 < (6::nat) \<and> reportsDisabled (exChain (6 - 1))" by blast
  moreover from abpVerifyLoop_polls [of exChain 0 "[]"] n0
  have "abpVerifyLoop exChain 0 [] = abpVerifyLoop exChain (0 + 1) ([] @ ''e'')"
    unfolding e0 by blast
  moreover have "\<forall>j. 0 \<le> j \<longrightarrow>
      \<not> reportsDisabled ((\<lambda>i. Inl ''connection refused'' :: string + AccountResp) j)"
    by (simp add: reportsDisabled_def)
  with abpVerifyLoop_polls [of "\<lambda>i. Inl ''connection refused''" 0 "[]"]
  have "abpVerifyLoop (\<lambda>i. Inl ''connection refused'') 0 [] = None"
    by blast
  ultimately show ?thesis using run n0 d5 b5 by blast
qed

end
